theory Spec2Isabelle
  imports Complex_Main "HOL-Library.Sublist" "HOL-Library.Multiset"
begin

section \<open>Numbers\<close>

text \<open>
  Python's \<open>float\<close> values are modelled by exact reals and Python's \<open>int\<close> by \<open>int\<close>:
  the rounding error of IEEE doubles, NaN and the infinities are outside the model.
  \<open>py_round\<close> is the built-in \<open>round\<close> with one argument (ties go to the even
  integer) and \<open>py_int\<close> is \<open>int(x)\<close> on a float (truncation toward zero).
\<close>

definition py_round :: "real \<Rightarrow> int" where
  "py_round x =
     (let f = \<lfloor>x\<rfloor>; r = x - of_int f
      in if r < 1 / 2 then f
         else if 1 / 2 < r then f + 1
         else if even f then f else f + 1)"

definition py_int :: "real \<Rightarrow> int" where
  "py_int x = (if 0 \<le> x then \<lfloor>x\<rfloor> else \<lceil>x\<rceil>)"

text \<open>
  The slice \<open>xs[:n]\<close>: a negative bound counts from the end of the list, and the
  bound is clamped to the list.
\<close>

definition py_slice_to :: "'a list \<Rightarrow> int \<Rightarrow> 'a list" where
  "py_slice_to xs n =
     (if 0 \<le> n then take (nat n) xs else take (nat (int (length xs) + n)) xs)"

section \<open>Frame count scheduler\<close>

text \<open>\<open>compute_max_frames_by_schedule(duration, user_max)\<close> of frame_extractor.py.\<close>

definition compute_max_frames_by_schedule :: "real option \<Rightarrow> int option \<Rightarrow> int" where
  "compute_max_frames_by_schedule duration user_max =
     (case user_max of
        Some u \<Rightarrow> u
      | None \<Rightarrow>
         (case duration of
            None \<Rightarrow> 15
          | Some d \<Rightarrow>
             if d \<le> 10 then 3
             else if d \<le> 30 then py_round (3 + (d - 10) / 20 * 2)
             else if d \<le> 60 then py_round (5 + (d - 30) / 30 * 5)
             else if d \<le> 120 then py_round (10 + (d - 60) / 60 * 5)
             else if d \<le> 300 then py_round (15 + (d - 120) / 180 * 5)
             else if d \<le> 600 then py_round (20 + (d - 300) / 300 * 10)
             else
               (let extra_time = d - 600;
                    extra_frames = py_int (10 * log 10 (1 + extra_time / 600))
                in min 50 (30 + extra_frames))))"

text \<open>The schedule of a known duration when the caller gives no maximum.\<close>

abbreviation (input) sched :: "real \<Rightarrow> int" where
  "sched d \<equiv> compute_max_frames_by_schedule (Some d) None"

section \<open>Candidate timestamp sampler\<close>

text \<open>
  \<open>sample_candidate_timestamps(duration, target_frames, multiplier, max_candidates)\<close>.
  \<open>range(n)\<close> is the list \<open>[0..n - 1]\<close>, empty when \<open>n \<le> 0\<close>.
\<close>

definition sample_candidate_timestamps ::
  "real option \<Rightarrow> int \<Rightarrow> real \<Rightarrow> int \<Rightarrow> real list" where
  "sample_candidate_timestamps duration target_frames multiplier max_candidates =
     (let n_cand = py_int (min (of_int max_candidates)
                               (max (of_int target_frames * multiplier) (of_int target_frames)))
      in case duration of
           None \<Rightarrow> map of_int [0..n_cand - 1]
         | Some d \<Rightarrow>
            if d \<le> 0 then map of_int [0..n_cand - 1]
            else
              (let start = 0.01 * d; end = 0.99 * d
               in if n_cand \<le> 1 then [0.5 * d]
                  else
                    (let step = (end - start) / of_int (n_cand - 1)
                     in map (\<lambda>i. start + of_int i * step) [0..n_cand - 1])))"

section \<open>Perceptual hash\<close>







text \<open>\<open>hamming(a, b)\<close>: the number of positions where two bit vectors of one length differ.\<close>

definition hamming :: "bool list \<Rightarrow> bool list \<Rightarrow> nat" where
  "hamming a b = length (filter (\<lambda>(x, y). x \<noteq> y) (zip a b))"

section \<open>Quality and diversity selector\<close>

record FrameCandidate =
  t :: real
  jpeg :: string
  sharpness :: real
  quality_score :: real
  brightness :: real
  hash :: "bool list"

text \<open>
  The tiered filter at the head of \<open>select_diverse_topk\<close>: the value of
  \<open>quality_filtered\<close> before it is sorted.
\<close>

definition quality_filter ::
  "FrameCandidate list \<Rightarrow> int \<Rightarrow> real \<Rightarrow> real \<Rightarrow> real \<Rightarrow> FrameCandidate list" where
  "quality_filter cands k bright_min bright_max min_quality_threshold =
     (let quality_filtered =
            filter (\<lambda>c. bright_min \<le> brightness c \<and> brightness c \<le> bright_max
                        \<and> min_quality_threshold \<le> quality_score c) cands
      in if quality_filtered \<noteq> [] then quality_filtered
         else
           (let relaxed_threshold = min_quality_threshold * 0.5;
                quality_filtered =
                  filter (\<lambda>c. bright_min \<le> brightness c \<and> brightness c \<le> bright_max
                              \<and> relaxed_threshold \<le> quality_score c) cands
            in if quality_filtered \<noteq> [] then quality_filtered
               else
                 (let quality_filtered =
                        filter (\<lambda>c. bright_min \<le> brightness c \<and> brightness c \<le> bright_max) cands
                  in if quality_filtered \<noteq> [] then quality_filtered
                     else py_slice_to cands (min 2 (min (int (length cands)) k)))))"

text \<open>
  \<open>list.sort(key=quality_score, reverse=True)\<close> is stable: candidates of equal score
  keep their order. So is the insertion sort \<open>sort_key\<close> on the negated score.
\<close>

definition sort_by_quality :: "FrameCandidate list \<Rightarrow> FrameCandidate list" where
  "sort_by_quality cs = sort_key (\<lambda>c. - quality_score c) cs"

text \<open>
  The two nested loops of the static-video check, over \<open>i < j\<close>: the distances they
  add up, in the order of the loops. \<open>total_distance\<close> is their sum and \<open>pairs\<close> their
  number.
\<close>

fun pair_distances :: "FrameCandidate list \<Rightarrow> nat list" where
  "pair_distances [] = []"
| "pair_distances (x # xs) = map (\<lambda>y. hamming (hash x) (hash y)) xs @ pair_distances xs"

definition avg_distance :: "FrameCandidate list \<Rightarrow> real" where
  "avg_distance top_frames =
     (let total_distance = sum_list (pair_distances top_frames);
          pairs = length (pair_distances top_frames)
      in if pairs > 0 then real total_distance / real pairs else 0)"

definition is_static :: "FrameCandidate list \<Rightarrow> int \<Rightarrow> bool" where
  "is_static quality_filtered min_hamm =
     (length quality_filtered \<ge> 3 \<and>
      (let sample_size = min 8 (length quality_filtered);
           top_frames = take sample_size quality_filtered;
           static_threshold = of_int min_hamm * 0.4
       in avg_distance top_frames < static_threshold))"

text \<open>
  The inner loop over \<open>chosen\<close>, which leaves at the first frame nearer than
  \<open>min_hamm\<close>; its value is \<open>is_diverse\<close>.
\<close>

fun is_diverse :: "FrameCandidate \<Rightarrow> FrameCandidate list \<Rightarrow> int \<Rightarrow> bool" where
  "is_diverse candidate [] min_hamm = True"
| "is_diverse candidate (chosen_frame # rest) min_hamm =
     (if int (hamming (hash candidate) (hash chosen_frame)) < min_hamm then False
      else is_diverse candidate rest min_hamm)"

text \<open>The loop over \<open>quality_filtered[1:]\<close>, which leaves once \<open>len(chosen) >= k\<close>.\<close>

fun select_loop ::
  "int \<Rightarrow> int \<Rightarrow> FrameCandidate list \<Rightarrow> FrameCandidate list \<Rightarrow> FrameCandidate list" where
  "select_loop k min_hamm chosen [] = chosen"
| "select_loop k min_hamm chosen (candidate # rest) =
     (if int (length chosen) \<ge> k then chosen
      else if is_diverse candidate chosen min_hamm
           then select_loop k min_hamm (chosen @ [candidate]) rest
           else select_loop k min_hamm chosen rest)"

text \<open>The value of \<open>chosen\<close> after the loop.\<close>

definition greedy_chosen :: "FrameCandidate list \<Rightarrow> int \<Rightarrow> int \<Rightarrow> FrameCandidate list" where
  "greedy_chosen quality_filtered k min_hamm =
     (case quality_filtered of
        [] \<Rightarrow> []
      | best # rest \<Rightarrow> select_loop k min_hamm [best] rest)"

definition conservative_trim :: "FrameCandidate list \<Rightarrow> int \<Rightarrow> FrameCandidate list" where
  "conservative_trim chosen k =
     (let diversity_ratio = (if k > 0 then real (length chosen) / of_int k else 0)
      in if diversity_ratio < 0.3 \<and> length chosen > 2
         then take (max 1 (length chosen div 2)) chosen
         else chosen)"

definition select_diverse_topk ::
  "FrameCandidate list \<Rightarrow> int \<Rightarrow> int \<Rightarrow> real \<Rightarrow> real \<Rightarrow> real \<Rightarrow> FrameCandidate list" where
  "select_diverse_topk cands k min_hamm bright_min bright_max min_quality_threshold =
     (if cands = [] then []
      else
        (let quality_filtered =
               sort_by_quality (quality_filter cands k bright_min bright_max min_quality_threshold)
         in if is_static quality_filtered min_hamm then take 1 quality_filtered
            else conservative_trim (greedy_chosen quality_filtered k min_hamm) k))"


text \<open>
  Frames for the examples: 64-bit hashes that are all zero, all one, and half of each,
  and three short candidate lists (one scene seen three times, three different scenes,
  three frames outside the brightness band 0.08 to 0.98).
\<close>

definition example_frame :: "real \<Rightarrow> real \<Rightarrow> bool list \<Rightarrow> FrameCandidate" where
  "example_frame q b h = \<lparr>t = 0, jpeg = [], sharpness = 0, quality_score = q, brightness = b, hash = h\<rparr>"

definition hash_lo :: "bool list" where "hash_lo = replicate 64 False"
definition hash_hi :: "bool list" where "hash_hi = replicate 64 True"
definition hash_mid :: "bool list" where "hash_mid = replicate 32 False @ replicate 32 True"


definition moving_frames :: "FrameCandidate list" where
  "moving_frames = [example_frame 1 0.5 hash_mid, example_frame 3 0.5 hash_lo, example_frame 2 0.5 hash_hi]"

definition dark_frames :: "FrameCandidate list" where
  "dark_frames = [example_frame 1 0.01 hash_lo, example_frame 3 0.02 hash_hi, example_frame 2 0.99 hash_mid]"

section \<open>Download and retry orchestrator\<close>

text \<open>
  A failure descriptor is the dictionary \<open>{"id", "filename", "download_link"}\<close> that a
  failed plain download returns; the field \<open>task_id\<close> is its key \<open>"id"\<close>.
\<close>

record FailureRecord =
  task_id :: nat
  filename :: string
  download_link :: string

text \<open>
  What the album run does that can be seen from outside: a call of
  \<open>MediaDownloader(...).download\<close> with its link, file name, task and \<open>retries\<close>
  argument (\<open>None\<close> when the constructor's default is left in place), and the end of the
  item task of one index.
\<close>

datatype event =
    DownloadCall string string nat "nat option"
  | TaskDone nat

record AlbumDownloader =
  failed_downloads :: "FailureRecord list"
  trace :: "event list"

text \<open>
  The collaborators of the orchestrator, none of them in this part of the repository:
  \<open>resolve\<close> is \<open>fetch_page\<close> followed by \<open>get_download_info\<close> (\<open>None\<close> when one of
  them raises), \<open>add_task\<close> is the progress display's task handle, \<open>suffix_lower\<close> is
  \<open>Path(filename).suffix.lower()\<close>, \<open>download\<close> is \<open>MediaDownloader(...).download\<close>,
  which returns nothing or a failure descriptor, and \<open>extract_frames\<close> is the session
  option of that name.
\<close>

record collaborators =
  resolve :: "string \<Rightarrow> (string \<times> string) option"
  add_task :: "nat \<Rightarrow> nat"
  suffix_lower :: "string \<Rightarrow> string"
  download :: "string \<Rightarrow> string \<Rightarrow> nat \<Rightarrow> nat option \<Rightarrow> FailureRecord option"
  extract_frames :: bool

datatype error = ItemTaskRaised | SemaphoreValueError | SemaphoreNeverAcquired

definition VIDEO_EXTENSIONS :: "string set" where
  "VIDEO_EXTENSIONS =
     {''.mp4'', ''.mkv'', ''.avi'', ''.mov'', ''.wmv'', ''.flv'', ''.webm'',
      ''.m4v'', ''.3gp'', ''.ogv'', ''.ts'', ''.mts'', ''.m2ts''}"

definition is_video_file :: "collaborators \<Rightarrow> string \<Rightarrow> bool" where
  "is_video_file env fname =
     (if fname = [] then False else suffix_lower env fname \<in> VIDEO_EXTENSIONS)"

text \<open>
  \<open>execute_item_download\<close>, run from its first line to its last: the extraction branch
  catches every exception and never touches \<open>failed_downloads\<close>; the plain branch
  appends the descriptor of a failed download.
\<close>

definition execute_item_download ::
  "collaborators \<Rightarrow> AlbumDownloader \<Rightarrow> string \<Rightarrow> nat \<Rightarrow> error + AlbumDownloader" where
  "execute_item_download env self item_page current_task =
     (let task = add_task env current_task
      in case resolve env item_page of
           None \<Rightarrow> Inl ItemTaskRaised
         | Some (item_download_link, item_filename) \<Rightarrow>
            if item_download_link \<noteq> [] then
              (if extract_frames env \<and> is_video_file env item_filename then Inr self
               else
                 (let self1 = self\<lparr>trace := trace self @
                        [DownloadCall item_download_link item_filename task None]\<rparr>
                  in case download env item_download_link item_filename task None of
                       Some failed_download \<Rightarrow>
                         Inr (self1\<lparr>failed_downloads := failed_downloads self1 @ [failed_download]\<rparr>)
                     | None \<Rightarrow> Inr self1))
            else Inr self)"

text \<open>
  \<open>retry_failed_download\<close> builds the downloader with \<open>retries=1\<close> and drops what the
  download returns.
\<close>

definition retry_failed_download ::
  "collaborators \<Rightarrow> AlbumDownloader \<Rightarrow> nat \<Rightarrow> string \<Rightarrow> string \<Rightarrow> AlbumDownloader" where
  "retry_failed_download env self task fname link =
     (let ignored = download env link fname task (Some 1)
      in self\<lparr>trace := trace self @ [DownloadCall link fname task (Some 1)]\<rparr>)"

fun retry_each ::
  "collaborators \<Rightarrow> AlbumDownloader \<Rightarrow> FailureRecord list \<Rightarrow> AlbumDownloader" where
  "retry_each env self [] = self"
| "retry_each env self (d # rest) =
     retry_each env
       (retry_failed_download env self (task_id d) (filename d) (download_link d)) rest"

definition process_failed_downloads :: "collaborators \<Rightarrow> AlbumDownloader \<Rightarrow> AlbumDownloader" where
  "process_failed_downloads env self =
     (let self1 = retry_each env self (failed_downloads self)
      in self1\<lparr>failed_downloads := []\<rparr>)"

text \<open>
  \<open>asyncio.gather\<close> over the item tasks. The tasks share only \<open>failed_downloads\<close>, and
  each appends to it at most once, when its download has returned; so a run of the
  tasks is given by the order in which they finish, a list of (index, page) pairs. An
  exception of one task leaves \<open>gather\<close>, and with it \<open>download_album\<close>.
\<close>

fun gather ::
  "collaborators \<Rightarrow> AlbumDownloader \<Rightarrow> (nat \<times> string) list \<Rightarrow> error + AlbumDownloader" where
  "gather env self [] = Inr self"
| "gather env self ((current_task, item_page) # rest) =
     (case execute_item_download env self item_page current_task of
        Inl e \<Rightarrow> Inl e
      | Inr self1 \<Rightarrow> gather env (self1\<lparr>trace := trace self1 @ [TaskDone current_task]\<rparr>) rest)"

text \<open>
  \<open>download_album(max_workers)\<close> on the item pages, with the order \<open>finish_order\<close> in
  which the item tasks end (a permutation of \<open>enumerate item_pages\<close>).
  \<open>asyncio.Semaphore\<close> refuses a negative size, and no task ever passes a semaphore of
  size 0.
\<close>

definition download_album ::
  "collaborators \<Rightarrow> AlbumDownloader \<Rightarrow> (nat \<times> string) list \<Rightarrow> int \<Rightarrow> error + AlbumDownloader" where
  "download_album env self finish_order max_workers =
     (if max_workers < 0 then Inl SemaphoreValueError
      else if max_workers = 0 \<and> finish_order \<noteq> [] then Inl SemaphoreNeverAcquired
      else
        (case gather env self finish_order of
           Inl e \<Rightarrow> Inl e
         | Inr self1 \<Rightarrow>
            if failed_downloads self1 \<noteq> [] then Inr (process_failed_downloads env self1)
            else Inr self1))"




text \<open>The downloader as \<open>__init__\<close> leaves it: no failure recorded, nothing done yet.\<close>

definition new_downloader :: AlbumDownloader where
  "new_downloader = \<lparr>failed_downloads = [], trace = []\<rparr>"




text \<open>
  An album for the examples: three pages that finish in the order 2, 0, 1; the video
  goes to frame extraction, \<open>a.jpg\<close> downloads, \<open>b.jpg\<close> fails at every attempt.
\<close>

definition example_env :: collaborators where
  "example_env =
     \<lparr>resolve = (\<lambda>page. Some (''https://cdn.example/'' @ page, page)),
      add_task = (\<lambda>i. i),
      suffix_lower = (\<lambda>fname. drop (length fname - 4) fname),
      download = (\<lambda>link fname task r.
         if fname = ''b.jpg'' then Some \<lparr>task_id = task, filename = fname, download_link = link\<rparr>
         else None),
      extract_frames = True\<rparr>"

definition example_order :: "(nat \<times> string) list" where
  "example_order = [(2, ''c.mp4''), (0, ''a.jpg''), (1, ''b.jpg'')]"

section \<open>The scheduler: table, override and monotonicity\<close>

lemma py_round_of_int: "py_round (of_int n) = n"
  by (simp add: py_round_def)

lemma py_round_mono: "x \<le> y \<Longrightarrow> py_round x \<le> py_round y"
proof -
  assume xy: "x \<le> y"
  have fl: "\<lfloor>x\<rfloor> \<le> \<lfloor>y\<rfloor>" using xy by (rule floor_mono)
  have lx: "py_round x \<le> \<lfloor>x\<rfloor> + 1" by (simp add: py_round_def Let_def)
  have ly: "\<lfloor>y\<rfloor> \<le> py_round y" by (simp add: py_round_def Let_def)
  show ?thesis
  proof (cases "\<lfloor>x\<rfloor> = \<lfloor>y\<rfloor>")
    case True
    then show ?thesis using xy by (auto simp: py_round_def Let_def)
  next
    case False
    then have "\<lfloor>x\<rfloor> + 1 \<le> \<lfloor>y\<rfloor>" using fl by linarith
    then show ?thesis using lx ly by linarith
  qed
qed

lemma py_int_nonneg: "0 \<le> x \<Longrightarrow> py_int x = \<lfloor>x\<rfloor>"
  by (simp add: py_int_def)

lemma tail_arg: "1 + (d - 600) / 600 = d / (600::real)"
  by (simp add: field_simps)

lemma log_tail_nonneg: "600 < d \<Longrightarrow> 0 \<le> 10 * log 10 (1 + (d - 600) / 600)"
proof -
  assume a: "600 < d"
  then have "1 \<le> d / 600" and "0 < d / 600" by simp_all
  then have "0 \<le> log 10 (d / 600)"
    by (simp add: zero_le_log_cancel_iff)
  then show ?thesis by (simp only: tail_arg)
qed

lemma log_tail_mono:
  "600 < d1 \<Longrightarrow> d1 \<le> d2 \<Longrightarrow>
     py_int (10 * log 10 (1 + (d1 - 600) / 600)) \<le> py_int (10 * log 10 (1 + (d2 - 600) / 600))"
proof -
  assume a: "600 < d1" and b: "d1 \<le> d2"
  have p1: "0 < d1 / 600" and p2: "0 < d2 / 600"
    using a b by simp_all
  have "d1 / 600 \<le> d2 / 600"
    using b by (simp add: divide_right_mono)
  then have "log 10 (d1 / 600) \<le> log 10 (d2 / 600)"
    using p1 p2 by simp
  then have "\<lfloor>10 * log 10 (d1 / 600)\<rfloor> \<le> \<lfloor>10 * log 10 (d2 / 600)\<rfloor>"
    by (intro floor_mono) simp
  then have "\<lfloor>10 * log 10 (1 + (d1 - 600) / 600)\<rfloor> \<le> \<lfloor>10 * log 10 (1 + (d2 - 600) / 600)\<rfloor>"
    by (simp only: tail_arg)
  then show ?thesis using a b log_tail_nonneg[of d1] log_tail_nonneg[of d2]
    by (simp only: py_int_nonneg)
qed

lemma sched_bounds:
  "(d \<le> 10 \<longrightarrow> sched d = 3) \<and>
   (10 < d \<and> d \<le> 30 \<longrightarrow> 3 \<le> sched d \<and> sched d \<le> 5) \<and>
   (30 < d \<and> d \<le> 60 \<longrightarrow> 5 \<le> sched d \<and> sched d \<le> 10) \<and>
   (60 < d \<and> d \<le> 120 \<longrightarrow> 10 \<le> sched d \<and> sched d \<le> 15) \<and>
   (120 < d \<and> d \<le> 300 \<longrightarrow> 15 \<le> sched d \<and> sched d \<le> 20) \<and>
   (300 < d \<and> d \<le> 600 \<longrightarrow> 20 \<le> sched d \<and> sched d \<le> 30) \<and>
   (600 < d \<longrightarrow> 30 \<le> sched d \<and> sched d \<le> 50)"
proof -
  have r: "\<And>a b x. of_int a \<le> x \<Longrightarrow> x \<le> of_int b \<Longrightarrow> a \<le> py_round x \<and> py_round x \<le> b"
    using py_round_mono py_round_of_int by metis
  have s1: "d \<le> 10 \<longrightarrow> sched d = 3"
    by (simp add: compute_max_frames_by_schedule_def)
  have s2: "10 < d \<and> d \<le> 30 \<longrightarrow> 3 \<le> sched d \<and> sched d \<le> 5"
    using r[of 3 "3 + (d - 10) / 20 * 2" 5]
    by (simp add: compute_max_frames_by_schedule_def)
  have s3: "30 < d \<and> d \<le> 60 \<longrightarrow> 5 \<le> sched d \<and> sched d \<le> 10"
    using r[of 5 "5 + (d - 30) / 30 * 5" 10]
    by (simp add: compute_max_frames_by_schedule_def)
  have s4: "60 < d \<and> d \<le> 120 \<longrightarrow> 10 \<le> sched d \<and> sched d \<le> 15"
    using r[of 10 "10 + (d - 60) / 60 * 5" 15]
    by (simp add: compute_max_frames_by_schedule_def)
  have s5: "120 < d \<and> d \<le> 300 \<longrightarrow> 15 \<le> sched d \<and> sched d \<le> 20"
    using r[of 15 "15 + (d - 120) / 180 * 5" 20]
    by (simp add: compute_max_frames_by_schedule_def)
  have s6: "300 < d \<and> d \<le> 600 \<longrightarrow> 20 \<le> sched d \<and> sched d \<le> 30"
    using r[of 20 "20 + (d - 300) / 300 * 10" 30]
    by (simp add: compute_max_frames_by_schedule_def)
  have s7: "600 < d \<longrightarrow> 30 \<le> sched d \<and> sched d \<le> 50"
    using log_tail_nonneg[of d]
    by (auto simp: compute_max_frames_by_schedule_def Let_def py_int_nonneg)
  show ?thesis using s1 s2 s3 s4 s5 s6 s7 by blast
qed

lemma sched_same_segment:
  assumes le: "d1 \<le> d2"
    and seg: "(10 < d1 \<and> d2 \<le> 30) \<or> (30 < d1 \<and> d2 \<le> 60) \<or> (60 < d1 \<and> d2 \<le> 120) \<or>
      (120 < d1 \<and> d2 \<le> 300) \<or> (300 < d1 \<and> d2 \<le> 600) \<or> 600 < d1 \<or> d2 \<le> 10"
  shows "sched d1 \<le> sched d2"
proof -
  have m: "\<And>x y. x \<le> y \<Longrightarrow> py_round x \<le> py_round y" by (rule py_round_mono)
  from seg consider
      (a) "10 < d1 \<and> d2 \<le> 30" | (b) "30 < d1 \<and> d2 \<le> 60" | (c) "60 < d1 \<and> d2 \<le> 120"
    | (d) "120 < d1 \<and> d2 \<le> 300" | (e) "300 < d1 \<and> d2 \<le> 600" | (f) "600 < d1" | (g) "d2 \<le> 10"
    by blast
  then show ?thesis
  proof cases
    case a then show ?thesis using le
      by (auto simp: compute_max_frames_by_schedule_def intro!: m)
  next
    case b then show ?thesis using le
      by (auto simp: compute_max_frames_by_schedule_def intro!: m)
  next
    case c then show ?thesis using le
      by (auto simp: compute_max_frames_by_schedule_def intro!: m)
  next
    case d then show ?thesis using le
      by (auto simp: compute_max_frames_by_schedule_def intro!: m)
  next
    case e then show ?thesis using le
      by (auto simp: compute_max_frames_by_schedule_def intro!: m)
  next
    case f then show ?thesis using le log_tail_mono[of d1 d2]
      by (auto simp: compute_max_frames_by_schedule_def Let_def)
  next
    case g then show ?thesis using le
      by (auto simp: compute_max_frames_by_schedule_def)
  qed
qed

lemma sched_upper:
  "(d \<le> 10 \<longrightarrow> sched d \<le> 3) \<and> (d \<le> 30 \<longrightarrow> sched d \<le> 5) \<and> (d \<le> 60 \<longrightarrow> sched d \<le> 10) \<and>
   (d \<le> 120 \<longrightarrow> sched d \<le> 15) \<and> (d \<le> 300 \<longrightarrow> sched d \<le> 20) \<and> (d \<le> 600 \<longrightarrow> sched d \<le> 30)"
proof -
  consider "d \<le> 10" | "10 < d \<and> d \<le> 30" | "30 < d \<and> d \<le> 60" | "60 < d \<and> d \<le> 120"
    | "120 < d \<and> d \<le> 300" | "300 < d \<and> d \<le> 600" | "600 < d"
    by linarith
  then show ?thesis
    using sched_bounds[of d] by cases simp_all
qed

lemma sched_lower:
  "(10 < d \<longrightarrow> 3 \<le> sched d) \<and> (30 < d \<longrightarrow> 5 \<le> sched d) \<and> (60 < d \<longrightarrow> 10 \<le> sched d) \<and>
   (120 < d \<longrightarrow> 15 \<le> sched d) \<and> (300 < d \<longrightarrow> 20 \<le> sched d) \<and> (600 < d \<longrightarrow> 30 \<le> sched d)"
proof -
  consider "d \<le> 10" | "10 < d \<and> d \<le> 30" | "30 < d \<and> d \<le> 60" | "60 < d \<and> d \<le> 120"
    | "120 < d \<and> d \<le> 300" | "300 < d \<and> d \<le> 600" | "600 < d"
    by linarith
  then show ?thesis
    using sched_bounds[of d] by cases simp_all
qed

lemma sched_le_50: "sched d \<le> 50"
proof -
  consider "d \<le> 10" | "10 < d \<and> d \<le> 30" | "30 < d \<and> d \<le> 60" | "60 < d \<and> d \<le> 120"
    | "120 < d \<and> d \<le> 300" | "300 < d \<and> d \<le> 600" | "600 < d"
    by linarith
  then show ?thesis
    using sched_bounds[of d] by cases simp_all
qed

lemma sched_cross:
  assumes "d1 \<le> b" and "b < d2"
    and "d1 \<le> b \<longrightarrow> sched d1 \<le> v" and "b < d2 \<longrightarrow> v \<le> sched d2"
  shows "sched d1 \<le> sched d2"
proof -
  have "sched d1 \<le> v" using assms(1,3) by blast
  moreover have "v \<le> sched d2" using assms(2,4) by blast
  ultimately show ?thesis by (rule order_trans)
qed

lemma sched_mono: "d1 \<le> d2 \<Longrightarrow> sched d1 \<le> sched d2"
proof -
  assume le: "d1 \<le> d2"
  note u = sched_upper[of d1] and l = sched_lower[of d2]
  show ?thesis
  proof (cases "(10 < d1 \<and> d2 \<le> 30) \<or> (30 < d1 \<and> d2 \<le> 60) \<or> (60 < d1 \<and> d2 \<le> 120) \<or>
   (120 < d1 \<and> d2 \<le> 300) \<or> (300 < d1 \<and> d2 \<le> 600) \<or> 600 < d1 \<or> d2 \<le> 10")
    case True
    then show ?thesis using le sched_same_segment by blast
  next
    case False
    then consider (a) "d1 \<le> 10 \<and> 10 < d2" | (b) "d1 \<le> 30 \<and> 30 < d2" | (c) "d1 \<le> 60 \<and> 60 < d2"
      | (d) "d1 \<le> 120 \<and> 120 < d2" | (e) "d1 \<le> 300 \<and> 300 < d2" | (f) "d1 \<le> 600 \<and> 600 < d2"
      using le by linarith
    then show ?thesis
    proof cases
      case a then show ?thesis using u l sched_cross[of d1 10 d2 3] by blast
    next
      case b then show ?thesis using u l sched_cross[of d1 30 d2 5] by blast
    next
      case c then show ?thesis using u l sched_cross[of d1 60 d2 10] by blast
    next
      case d then show ?thesis using u l sched_cross[of d1 120 d2 15] by blast
    next
      case e then show ?thesis using u l sched_cross[of d1 300 d2 20] by blast
    next
      case f then show ?thesis using u l sched_cross[of d1 600 d2 30] by blast
    qed
  qed
qed

text \<open>
  Claim C2. Without an override the schedule takes the values 3, 5, 10, 15, 20 and 30 at
  the durations 10, 30, 60, 120, 300 and 600; an override is returned as it is, whatever
  the duration (known or unknown), for instance 7 at duration 5; and without an override
  an unknown duration gives 15.
\<close>

theorem schedule_table_and_override:
  "compute_max_frames_by_schedule (Some 10) None = 3 \<and>
   compute_max_frames_by_schedule (Some 30) None = 5 \<and>
   compute_max_frames_by_schedule (Some 60) None = 10 \<and>
   compute_max_frames_by_schedule (Some 120) None = 15 \<and>
   compute_max_frames_by_schedule (Some 300) None = 20 \<and>
   compute_max_frames_by_schedule (Some 600) None = 30 \<and>
   (\<forall>duration override. compute_max_frames_by_schedule duration (Some override) = override) \<and>
   compute_max_frames_by_schedule (Some 5) (Some 7) = 7 \<and>
   compute_max_frames_by_schedule None None = 15"
  by (simp add: compute_max_frames_by_schedule_def py_round_def)


theorem schedule_table_and_override_witness:
  "compute_max_frames_by_schedule (Some 5) (Some 7) = 7 \<and>
   compute_max_frames_by_schedule None (Some 7) = 7"
  using schedule_table_and_override by simp

text \<open>
  Claim C8. Without an override the schedule never decreases when the duration grows,
  within a segment, across the segment boundaries and in the logarithmic regime beyond
  600 seconds, and it never exceeds 50.
\<close>

theorem schedule_monotone:
  "d1 < d2 \<Longrightarrow>
     compute_max_frames_by_schedule (Some d1) None \<le> compute_max_frames_by_schedule (Some d2) None
     \<and> compute_max_frames_by_schedule (Some d2) None \<le> 50"
  using sched_mono[of d1 d2] sched_le_50[of d2] by simp


theorem schedule_monotone_witness:
  "(600::real) < 6000 \<and>
   compute_max_frames_by_schedule (Some 600) None \<le> compute_max_frames_by_schedule (Some 6000) None"
  using schedule_monotone[of 600 6000] by simp

section \<open>The selector: sorting, filtering and the greedy loop\<close>

lemma set_sort_by_quality: "set (sort_by_quality cs) = set cs"
  by (simp add: sort_by_quality_def)

lemma length_sort_by_quality: "length (sort_by_quality cs) = length cs"
  by (simp add: sort_by_quality_def)

lemma sort_by_quality_Nil_iff: "sort_by_quality cs = [] \<longleftrightarrow> cs = []"
  using length_sort_by_quality[of cs] by auto

lemma sorted_sort_by_quality:
  "sorted (map (\<lambda>c. - quality_score c) (sort_by_quality cs))"
  by (simp add: sort_by_quality_def)

lemma hd_sort_by_quality_max:
  assumes "c \<in> set cs"
  shows "quality_score c \<le> quality_score (hd (sort_by_quality cs))"
proof -
  from assms have ne: "sort_by_quality cs \<noteq> []"
    by (auto simp: sort_by_quality_Nil_iff)
  then obtain x xs where s: "sort_by_quality cs = x # xs"
    by (cases "sort_by_quality cs") auto
  have "c \<in> set (x # xs)" using assms set_sort_by_quality[of cs] s by simp
  moreover have "\<forall>y\<in>set xs. - quality_score x \<le> - quality_score y"
    using sorted_sort_by_quality[of cs] s by simp
  ultimately show ?thesis using s by auto
qed

lemma hd_sort_by_quality_mem:
  "cs \<noteq> [] \<Longrightarrow> hd (sort_by_quality cs) \<in> set cs"
  using hd_in_set[of "sort_by_quality cs"] set_sort_by_quality[of cs] sort_by_quality_Nil_iff[of cs]
  by blast

lemma py_slice_to_nonneg: "0 \<le> n \<Longrightarrow> py_slice_to xs n = take (nat n) xs"
  by (simp add: py_slice_to_def)


lemma quality_filter_nonempty:
  assumes "cands \<noteq> []" and "1 \<le> k"
  shows "quality_filter cands k bmin bmax thr \<noteq> []"
proof -
  have len: "1 \<le> int (length cands)" using assms(1) by (cases cands) auto
  have m: "1 \<le> min 2 (min (int (length cands)) k)" using len assms(2) by simp
  then have "py_slice_to cands (min 2 (min (int (length cands)) k))
      = take (nat (min 2 (min (int (length cands)) k))) cands"
    by (simp add: py_slice_to_nonneg)
  moreover have "0 < nat (min 2 (min (int (length cands)) k))" using m by linarith
  ultimately have "py_slice_to cands (min 2 (min (int (length cands)) k)) \<noteq> []"
    using assms(1) by (cases cands) auto
  then show ?thesis
    by (simp add: quality_filter_def Let_def)
qed

lemma select_loop_prefix: "prefix chosen (select_loop k mh chosen rest)"
proof (induction rest arbitrary: chosen)
  case Nil
  then show ?case by simp
next
  case (Cons c rest)
  have "prefix chosen (select_loop k mh (chosen @ [c]) rest)"
    using Cons.IH[of "chosen @ [c]"] by (meson append_prefixD)
  then show ?case using Cons.IH[of chosen] by simp
qed

lemma select_loop_length:
  "int (length (select_loop k mh chosen rest)) \<le> max (int (length chosen)) k"
proof (induction rest arbitrary: chosen)
  case Nil
  then show ?case by simp
next
  case (Cons c rest)
  show ?case
  proof (cases "k \<le> int (length chosen)")
    case True
    then show ?thesis by simp
  next
    case False
    then have "max (int (length (chosen @ [c]))) k = k" by simp
    then show ?thesis using Cons.IH[of "chosen @ [c]"] Cons.IH[of chosen] False by simp
  qed
qed

lemma greedy_chosen_hd:
  "qf \<noteq> [] \<Longrightarrow> greedy_chosen qf k mh \<noteq> [] \<and> hd (greedy_chosen qf k mh) = hd qf"
proof -
  assume "qf \<noteq> []"
  then obtain b rest where q: "qf = b # rest" by (cases qf) auto
  have "prefix [b] (select_loop k mh [b] rest)" by (rule select_loop_prefix)
  then obtain zs where "select_loop k mh [b] rest = [b] @ zs" by (auto simp: prefix_def)
  then show ?thesis using q by (simp add: greedy_chosen_def)
qed

lemma greedy_chosen_length: "int (length (greedy_chosen qf k mh)) \<le> max 1 k"
proof (cases qf)
  case Nil
  then show ?thesis by (simp add: greedy_chosen_def)
next
  case (Cons b rest)
  then show ?thesis using select_loop_length[of k mh "[b]" rest] by (simp add: greedy_chosen_def)
qed

lemma conservative_trim_hd:
  "chosen \<noteq> [] \<Longrightarrow> conservative_trim chosen k \<noteq> [] \<and> hd (conservative_trim chosen k) = hd chosen"
  by (auto simp: conservative_trim_def Let_def)

lemma conservative_trim_length: "length (conservative_trim chosen k) \<le> length chosen"
  by (simp add: conservative_trim_def Let_def)

lemma select_diverse_topk_hd:
  assumes "cands \<noteq> []"
    and "quality_filter cands k bmin bmax thr \<noteq> []"
  shows "select_diverse_topk cands k mh bmin bmax thr \<noteq> [] \<and>
         hd (select_diverse_topk cands k mh bmin bmax thr)
           = hd (sort_by_quality (quality_filter cands k bmin bmax thr))"
proof -
  let ?qf = "sort_by_quality (quality_filter cands k bmin bmax thr)"
  have ne: "?qf \<noteq> []" using assms(2) by (simp add: sort_by_quality_Nil_iff)
  show ?thesis
  proof (cases "is_static ?qf mh")
    case True
    then have "select_diverse_topk cands k mh bmin bmax thr = take 1 ?qf"
      using assms(1) by (simp add: select_diverse_topk_def Let_def)
    then show ?thesis using ne by (cases ?qf) auto
  next
    case False
    then have "select_diverse_topk cands k mh bmin bmax thr
        = conservative_trim (greedy_chosen ?qf k mh) k"
      using assms(1) by (simp add: select_diverse_topk_def Let_def)
    then show ?thesis
      using greedy_chosen_hd[OF ne, of k mh] conservative_trim_hd[of "greedy_chosen ?qf k mh" k]
      by simp
  qed
qed

lemma select_diverse_topk_length:
  "int (length (select_diverse_topk cands k mh bmin bmax thr)) \<le> max 1 k"
proof -
  let ?qf = "sort_by_quality (quality_filter cands k bmin bmax thr)"
  have "int (length (conservative_trim (greedy_chosen ?qf k mh) k)) \<le> max 1 k"
    using conservative_trim_length[of "greedy_chosen ?qf k mh" k] greedy_chosen_length[of ?qf k mh]
    by linarith
  moreover have "int (length (take 1 ?qf)) \<le> max 1 k" by simp
  ultimately show ?thesis by (simp add: select_diverse_topk_def Let_def)
qed

lemma example_frame_sel:
  "quality_score (example_frame q b h) = q" "brightness (example_frame q b h) = b"
  "hash (example_frame q b h) = h"
  by (simp_all add: example_frame_def)


lemma select_diverse_topk_Nil: "select_diverse_topk [] k mh bmin bmax thr = []"
  by (simp add: select_diverse_topk_def)

text \<open>
  How \<open>extract_frames_from_video\<close> comes to call the selector with \<open>k = 0\<close> and one
  candidate: a caller's maximum of 0 is the schedule's result, and for a known duration
  the sampler then probes the midpoint.
\<close>

lemma zero_budget_reaches_selector:
  "compute_max_frames_by_schedule (Some 100) (Some 0) = 0 \<and>
   sample_candidate_timestamps (Some 100) 0 4 200 = [50]"
  by (simp add: compute_max_frames_by_schedule_def sample_candidate_timestamps_def py_int_def)

text \<open>
  Claim C1, at the input where the code leaves it. The docstring of
  \<open>select_diverse_topk\<close> promises at most \<open>k\<close> frames. With the maximum \<open>k = 0\<close> and
  one candidate that passes the first filter tier, the best frame is appended before
  any test of \<open>k\<close>, and the function returns that one frame. (By
  \<open>select_diverse_topk_length\<close> the result has at most \<open>max 1 k\<close> frames, so the bound
  holds for every \<open>k \<ge> 1\<close>.)
\<close>

theorem select_one_frame_k0:
  "select_diverse_topk [example_frame 1 0.5 hash_lo] 0 12 0.08 0.98 0.3 = [example_frame 1 0.5 hash_lo]"
  by (simp add: select_diverse_topk_def quality_filter_def sort_by_quality_def is_static_def
      greedy_chosen_def conservative_trim_def example_frame_sel)

text \<open>
  Claim C10. For a non-empty candidate list and \<open>k \<ge> 1\<close> the result is not empty, and
  its first frame is one of the frames that survive the filter tier in use and has the
  greatest quality score among them; this holds on the static path, on the greedy path
  and after the trim.
\<close>

theorem select_first_is_best:
  assumes "cands \<noteq> []" and "1 \<le> k"
  shows "select_diverse_topk cands k min_hamm bright_min bright_max thr \<noteq> [] \<and>
         hd (select_diverse_topk cands k min_hamm bright_min bright_max thr)
           \<in> set (quality_filter cands k bright_min bright_max thr) \<and>
         (\<forall>c \<in> set (quality_filter cands k bright_min bright_max thr).
            quality_score c
              \<le> quality_score (hd (select_diverse_topk cands k min_hamm bright_min bright_max thr)))"
proof -
  let ?f = "quality_filter cands k bright_min bright_max thr"
  have ne: "?f \<noteq> []" using assms by (rule quality_filter_nonempty)
  have h: "select_diverse_topk cands k min_hamm bright_min bright_max thr \<noteq> [] \<and>
      hd (select_diverse_topk cands k min_hamm bright_min bright_max thr) = hd (sort_by_quality ?f)"
    using assms(1) ne by (rule select_diverse_topk_hd)
  have "hd (sort_by_quality ?f) \<in> set ?f" using ne by (rule hd_sort_by_quality_mem)
  moreover have "\<forall>c\<in>set ?f. quality_score c \<le> quality_score (hd (sort_by_quality ?f))"
    using hd_sort_by_quality_max by blast
  ultimately show ?thesis using h by simp
qed

theorem select_first_is_best_witness:
  "hd (select_diverse_topk moving_frames 15 12 0.08 0.98 0.3)
     \<in> set (quality_filter moving_frames 15 0.08 0.98 0.3)"
proof -
  have h1: "moving_frames \<noteq> []" by (simp add: moving_frames_def)
  have h2: "(1::int) \<le> 15" by simp
  show ?thesis using select_first_is_best[OF h1 h2] by blast
qed

section \<open>The selector: static-video detection\<close>











section \<open>The selector: filter tiers\<close>

lemma take_min_length: "take (min n (length xs)) xs = take n xs"
  by (simp add: min_def)

lemma fallback_slice:
  assumes "0 \<le> k"
  shows "py_slice_to cands (min 2 (min (int (length cands)) k)) = take (nat (min 2 k)) cands"
proof -
  have "0 \<le> min 2 (min (int (length cands)) k)" using assms by simp
  then have "py_slice_to cands (min 2 (min (int (length cands)) k))
      = take (nat (min 2 (min (int (length cands)) k))) cands"
    by (rule py_slice_to_nonneg)
  moreover have "nat (min 2 (min (int (length cands)) k)) = min (nat (min 2 k)) (length cands)"
    using assms by linarith
  ultimately show ?thesis by (simp add: take_min_length)
qed

text \<open>
  A negative \<open>k\<close> is no count; there the slice \<open>cands[:k]\<close> drops frames from the end of
  the list instead.
\<close>

lemma fallback_slice_negative:
  "quality_filter dark_frames (- 1) 0.08 0.98 0.3
     = [example_frame 1 0.01 hash_lo, example_frame 3 0.02 hash_hi]"
  by (simp add: quality_filter_def py_slice_to_def example_frame_sel dark_frames_def)

text \<open>
  Claim C5. The filter has four tiers and stops at the first that is not empty:
  brightness in the band and quality at least the threshold; brightness in the band and
  quality at least half the threshold; brightness in the band; and, when all three are
  empty, the first \<open>min(2, k)\<close> candidates in input order. The maximum \<open>k\<close> is a count,
  \<open>k \<ge> 0\<close>.
\<close>

theorem tiered_filter:
  assumes "0 \<le> k"
  shows "quality_filter cands k bright_min bright_max thr =
     (if filter (\<lambda>c. bright_min \<le> brightness c \<and> brightness c \<le> bright_max
                      \<and> thr \<le> quality_score c) cands \<noteq> []
      then filter (\<lambda>c. bright_min \<le> brightness c \<and> brightness c \<le> bright_max
                      \<and> thr \<le> quality_score c) cands
      else if filter (\<lambda>c. bright_min \<le> brightness c \<and> brightness c \<le> bright_max
                      \<and> 0.5 * thr \<le> quality_score c) cands \<noteq> []
      then filter (\<lambda>c. bright_min \<le> brightness c \<and> brightness c \<le> bright_max
                      \<and> 0.5 * thr \<le> quality_score c) cands
      else if filter (\<lambda>c. bright_min \<le> brightness c \<and> brightness c \<le> bright_max) cands \<noteq> []
      then filter (\<lambda>c. bright_min \<le> brightness c \<and> brightness c \<le> bright_max) cands
      else take (nat (min 2 k)) cands)"
  using fallback_slice[OF assms, of cands]
  by (simp add: quality_filter_def Let_def mult.commute)

theorem tiered_filter_witness:
  "quality_filter dark_frames 1 0.08 0.98 0.3 = [example_frame 1 0.01 hash_lo]"
proof -
  have h: "(0::int) \<le> 1" by simp
  show ?thesis
    unfolding tiered_filter[OF h] by (simp add: example_frame_sel dark_frames_def)
qed

section \<open>The selector: greedy selection and trim\<close>















section \<open>The sampler\<close>







text \<open>
  The claim as it is written gives the count as \<open>min(cap, max(target * multiplier, target))\<close>.
  With target 3 and multiplier 2.5 that number is 7.5, and the code returns 7
  timestamps.
\<close>

lemma sampler_count_example: "length (sample_candidate_timestamps (Some 100) 3 2.5 200) = 7"
  by (simp add: sample_candidate_timestamps_def py_int_def Let_def)


section \<open>The perceptual hash\<close>













section \<open>The orchestrator: one retry pass after all item tasks\<close>













lemma example_run:
  "download_album example_env new_downloader example_order 2 =
     Inr \<lparr>failed_downloads = [],
          trace = [TaskDone 2,
                   DownloadCall ''https://cdn.example/a.jpg'' ''a.jpg'' 0 None, TaskDone 0,
                   DownloadCall ''https://cdn.example/b.jpg'' ''b.jpg'' 1 None, TaskDone 1,
                   DownloadCall ''https://cdn.example/b.jpg'' ''b.jpg'' 1 (Some 1)]\<rparr>"
  by (simp add: download_album_def example_order_def example_env_def new_downloader_def
      execute_item_download_def is_video_file_def VIDEO_EXTENSIONS_def
      process_failed_downloads_def retry_failed_download_def)






end
